theory Spec2Isabelle
  imports Complex_Main "HOL-Library.List_Lexorder" "HOL-Library.Char_ord"
begin

section \<open>Errors raised by the analysed code\<close>

text \<open>
  Every exception the modelled Python can raise is a value.  \<open>SystaxError\<close> is the
  error of the ground-state search, \<open>CellNormalizationError\<close> the one of the symmetry
  dataset, \<open>LinAlgError\<close> comes from \<open>np.linalg.inv\<close>; \<open>NonFinite\<close> stands for the
  IEEE \<open>inf\<close>/\<open>nan\<close> that numpy produces on a division by zero, which the exact
  numbers used here cannot carry.
\<close>

datatype py_error =
    TypeError
  | ValueError
  | KeyError
  | IndexError
  | ZeroDivisionError
  | RuntimeError
  | SystaxError
  | CellNormalizationError
  | LinAlgError
  | NonFinite

section \<open>The tiling map: \<open>LinkedUnitCollection.__setitem__\<close>\<close>

text \<open>
  The collection is a dictionary from lattice indices to units.  A Python dictionary
  is modelled as the list of its items in insertion order, with one item per key.  The
  key handed to \<open>__setitem__\<close> is any Python object: either \<open>tuple(key)\<close> raises (the
  object is not iterable) or it yields the sequence of its components.
\<close>

datatype key_arg = NonIterable | Sequence "int list"

type_synonym 'u tiling = "(int list \<times> 'u) list"

definition dict_keys :: "('k \<times> 'v) list \<Rightarrow> 'k set" where
  "dict_keys d = fst ` set d"

definition dict_values :: "('k \<times> 'v) list \<Rightarrow> 'v list" where
  "dict_values d = map snd d"

text \<open>
  The result is the exception raised, if any, and the dictionary after the call.
\<close>

definition setitem :: "key_arg \<Rightarrow> 'u \<Rightarrow> 'u tiling \<Rightarrow> py_error option \<times> 'u tiling" where
  "setitem key val d =
     (case key of
        NonIterable \<Rightarrow> (Some TypeError, d)
      | Sequence k \<Rightarrow>
          if length k \<noteq> 3 then (Some ValueError, d)
          else if k \<in> dict_keys d then (Some ValueError, d)
          else (None, d @ [(k, val)]))"

section \<open>Chemical environments and their distance\<close>

text \<open>
  A chemical environment maps a neighbouring species (atomic number) to the number of
  neighbours of that species.  \<open>get_chemical_environment\<close> builds it with numpy integer
  counts, so \<open>score/max_score\<close> with \<open>max_score = 0\<close> is \<open>nan\<close> (with a warning) when
  the ideal environment has entries, and a \<open>ZeroDivisionError\<close> of plain integers when
  it has none.
\<close>

type_synonym env = "(nat \<times> nat) list"

fun score_loop :: "env \<Rightarrow> env \<Rightarrow> nat \<Rightarrow> nat" where
  "score_loop [] real_env score = score"
| "score_loop ((ideal_key, ideal_value) # items) real_env score =
     (case map_of real_env ideal_key of
        None \<Rightarrow> score_loop items real_env score
      | Some real_value \<Rightarrow> score_loop items real_env (score + min real_value ideal_value))"

definition get_chemical_distance :: "env \<Rightarrow> env \<Rightarrow> py_error + rat" where
  "get_chemical_distance ideal_env real_env =
     (let max_score = sum_list (map snd ideal_env);
          score = score_loop ideal_env real_env 0
      in if max_score = 0
         then (if ideal_env = [] then Inl ZeroDivisionError else Inl NonFinite)
         else Inr (of_nat score / of_nat max_score))"

text \<open>
  The formula in the words of the specification: the count of a species that an
  environment does not list is zero, and the sums range over the species of either
  environment.
\<close>

definition species_count :: "env \<Rightarrow> nat \<Rightarrow> nat" where
  "species_count e z = (case map_of e z of None \<Rightarrow> 0 | Some c \<Rightarrow> c)"

definition chemical_distance_formula :: "env \<Rightarrow> env \<Rightarrow> rat" where
  "chemical_distance_formula ideal_env real_env =
     of_nat (\<Sum>z \<in> dict_keys ideal_env \<union> dict_keys real_env.
               min (species_count ideal_env z) (species_count real_env z))
     / of_nat (\<Sum>z \<in> dict_keys ideal_env. species_count ideal_env z)"

section \<open>The symmetry dataset: \<open>SymmetryAnalyzer.get_symmetry_dataset\<close>\<close>

text \<open>
  The analyzer keeps the dataset in \<open>_symmetry_dataset\<close>.  The oracle
  (\<open>spglib.get_symmetry_dataset\<close>) is called through \<open>segfault_protect\<close>; a run of the
  oracle either crashes its process or returns a dataset or \<open>None\<close>.
\<close>

datatype 'd oracle_run = Crashes | Returns "'d option"

record 'd analyzer =
  symmetry_dataset :: "'d option"

text \<open>
  Modelled from the spec: \<open>segfault_protect\<close> (module \<open>systax.utils.segfault_protect\<close>,
  absent from the source tree) runs the oracle inside its own fault boundary; a crash
  surfaces as \<open>RuntimeError\<close> in the caller, any other run hands back what the oracle
  returned.
\<close>

definition segfault_protect :: "'d oracle_run \<Rightarrow> py_error + 'd option" where
  "segfault_protect run = (case run of Crashes \<Rightarrow> Inl RuntimeError | Returns r \<Rightarrow> Inr r)"

definition get_symmetry_dataset ::
  "'d oracle_run \<Rightarrow> 'd analyzer \<Rightarrow> (py_error + 'd) \<times> 'd analyzer" where
  "get_symmetry_dataset run s =
     (case symmetry_dataset s of
        Some d \<Rightarrow> (Inr d, s)
      | None \<Rightarrow>
          (case segfault_protect run of
             Inl e \<Rightarrow> (if e = RuntimeError then (Inl CellNormalizationError, s) else (Inl e, s))
           | Inr None \<Rightarrow> (Inl CellNormalizationError, s)
           | Inr (Some d) \<Rightarrow> (Inr d, s\<lparr>symmetry_dataset := Some d\<rparr>)))"

section \<open>Ground-state Wyckoff letters: \<open>_find_wyckoff_ground_state\<close>\<close>

text \<open>
  A Wyckoff letter is a Python string, ordered as Python orders strings (by code
  point).  A rigid transformation carries its matrix, which the selection never
  inspects, and the permutation of letters it induces, a dictionary.
\<close>

type_synonym letter = string

type_synonym wyckoff_key = "letter \<times> nat"

record 'm transform =
  transformation :: 'm
  permutations :: "(letter \<times> letter) list"

record 'm representation =
  r_transformation :: 'm
  r_permutations :: "(letter \<times> letter) list"
  wyckoff_positions :: "(wyckoff_key \<times> nat) list"

text \<open>
  \<open>{x: x for x in old_wyckoff_letters}\<close>: one item per distinct letter.
\<close>

definition identity_permutations :: "letter list \<Rightarrow> (letter \<times> letter) list" where
  "identity_permutations old_wyckoff_letters = map (\<lambda>x. (x, x)) (remdups old_wyckoff_letters)"

text \<open>
  The tables \<open>PROPER_RIGID_TRANSFORMATIONS\<close> and \<open>IMPROPER_RIGID_TRANSFORMATIONS\<close> are
  external data; \<open>proper\<close> and \<open>improper\<close> are what \<open>.get(space_group)\<close> returns.
\<close>

definition gather_transforms ::
  "'m \<Rightarrow> 'm transform list option \<Rightarrow> 'm transform list option \<Rightarrow> bool \<Rightarrow> letter list
     \<Rightarrow> 'm transform list" where
  "gather_transforms identity_matrix proper improper is_flat old_wyckoff_letters =
     [\<lparr>transformation = identity_matrix,
       permutations = identity_permutations old_wyckoff_letters\<rparr>]
     @ (case proper of None \<Rightarrow> [] | Some ts \<Rightarrow> ts)
     @ (if is_flat then (case improper of None \<Rightarrow> [] | Some ts \<Rightarrow> ts) else [])"

text \<open>
  \<open>wyckoff_positions[(new_w, z)]\<close> is set to 1 for a new key and incremented for a
  known one.
\<close>

fun count_key :: "'k \<Rightarrow> ('k \<times> nat) list \<Rightarrow> ('k \<times> nat) list" where
  "count_key k [] = [(k, 1)]"
| "count_key k ((k', n) # d) = (if k = k' then (k', n + 1) # d else (k', n) # count_key k d)"

fun count_atoms ::
  "(letter \<times> letter) list \<Rightarrow> (letter \<times> nat) list \<Rightarrow> (wyckoff_key \<times> nat) list
     \<Rightarrow> (wyckoff_key \<times> nat) list" where
  "count_atoms perm [] d = d"
| "count_atoms perm ((old_w, z) # atoms) d =
     (case map_of perm old_w of
        None \<Rightarrow> count_atoms perm atoms d
      | Some new_w \<Rightarrow> count_atoms perm atoms (count_key (new_w, z) d))"

definition make_representation ::
  "letter list \<Rightarrow> nat list \<Rightarrow> 'm transform \<Rightarrow> 'm representation" where
  "make_representation old_wyckoff_letters atomic_numbers t =
     \<lparr>r_transformation = transformation t,
      r_permutations = permutations t,
      wyckoff_positions = count_atoms (permutations t) (zip old_wyckoff_letters atomic_numbers) []\<rparr>"

definition all_wyckoff_letters :: "'m transform list \<Rightarrow> letter list" where
  "all_wyckoff_letters transform_list =
     sort (remdups (concat (map (\<lambda>t. map snd (permutations t)) transform_list)))"

definition all_atomic_numbers :: "nat list \<Rightarrow> nat list" where
  "all_atomic_numbers atomic_numbers = sort (remdups atomic_numbers)"

text \<open>
  One pass of the innermost loop for the key \<open>(w, z)\<close>: the largest count among the
  representations that have the key, and the representations that reach it.
\<close>

definition n_atoms_max :: "wyckoff_key \<Rightarrow> 'm representation list \<Rightarrow> nat" where
  "n_atoms_max k representations =
     fold (\<lambda>r m. case map_of (wyckoff_positions r) k of
                    None \<Rightarrow> m
                  | Some i_n \<Rightarrow> if i_n > m then i_n else m) representations 0"

definition narrow_step :: "wyckoff_key \<Rightarrow> 'm representation list \<Rightarrow> 'm representation list" where
  "narrow_step k representations =
     (let m = n_atoms_max k representations
      in if m \<noteq> 0
         then filter (\<lambda>r. map_of (wyckoff_positions r) k = Some m) representations
         else representations)"

fun species_loop ::
  "letter \<Rightarrow> nat list \<Rightarrow> 'm representation list \<times> bool \<Rightarrow> 'm representation list \<times> bool" where
  "species_loop w [] st = st"
| "species_loop w (z # zs) (representations, found) =
     (let representations' = narrow_step (w, z) representations
      in species_loop w zs (representations', found \<or> length representations' = 1))"

fun letter_loop ::
  "letter list \<Rightarrow> nat list \<Rightarrow> 'm representation list \<times> bool \<Rightarrow> 'm representation list \<times> bool" where
  "letter_loop [] zs st = st"
| "letter_loop (w # ws) zs (representations, found) =
     (if found then (representations, found)
      else letter_loop ws zs (species_loop w zs (representations, found)))"

text \<open>
  The final comparison of the surviving representations with the first one;
  \<open>i_wyckoffs[key]\<close> raises \<open>KeyError\<close> for a key the other dictionary lacks.
\<close>

fun compare_keys ::
  "wyckoff_key list \<Rightarrow> (wyckoff_key \<times> nat) list \<Rightarrow> (wyckoff_key \<times> nat) list
     \<Rightarrow> py_error option" where
  "compare_keys [] new_wyckoffs i_wyckoffs = None"
| "compare_keys (key # keys) new_wyckoffs i_wyckoffs =
     (case map_of i_wyckoffs key of
        None \<Rightarrow> Some KeyError
      | Some n \<Rightarrow> if Some n \<noteq> map_of new_wyckoffs key then Some SystaxError
                  else compare_keys keys new_wyckoffs i_wyckoffs)"

fun compare_representations ::
  "(wyckoff_key \<times> nat) list \<Rightarrow> 'm representation list \<Rightarrow> py_error option" where
  "compare_representations new_wyckoffs [] = None"
| "compare_representations new_wyckoffs (r # rs) =
     (if length (wyckoff_positions r) \<noteq> length new_wyckoffs then Some SystaxError
      else (case compare_keys (map fst new_wyckoffs) new_wyckoffs (wyckoff_positions r) of
              Some e \<Rightarrow> Some e
            | None \<Rightarrow> compare_representations new_wyckoffs rs))"

text \<open>
  The function returns the chosen transformation (stored in \<open>_best_transform\<close>) and the
  letter of every atom under its permutation; the atomic positions, which it also maps
  through the chosen matrix, are left out.
\<close>

definition find_wyckoff_ground_state ::
  "'m \<Rightarrow> 'm transform list option \<Rightarrow> 'm transform list option \<Rightarrow> bool
     \<Rightarrow> letter list \<Rightarrow> nat list \<Rightarrow> py_error + ('m transform \<times> letter option list)" where
  "find_wyckoff_ground_state identity_matrix proper improper is_flat old_wyckoff_letters
       atomic_numbers =
     (let transform_list =
            gather_transforms identity_matrix proper improper is_flat old_wyckoff_letters
      in if length transform_list = 1
         then Inr (hd transform_list, map Some old_wyckoff_letters)
         else
           let representations =
                 map (make_representation old_wyckoff_letters atomic_numbers) transform_list;
               (representations, found) =
                 letter_loop (all_wyckoff_letters transform_list)
                   (all_atomic_numbers atomic_numbers) (representations, False)
           in (case representations of
                 [] \<Rightarrow> Inl IndexError
               | best # others \<Rightarrow>
                   (case (if length representations > 1
                          then compare_representations (wyckoff_positions best) others
                          else None) of
                      Some e \<Rightarrow> Inl e
                    | None \<Rightarrow>
                        Inr (\<lparr>transformation = r_transformation best,
                              permutations = r_permutations best\<rparr>,
                             map (map_of (r_permutations best)) old_wyckoff_letters))))"

text \<open>
  The selection in the words of the specification: the count of a key a candidate
  does not have is zero; the keys are visited letter by letter and, within a letter,
  species by species; narrowing stops once a single candidate is left.
\<close>

definition key_count :: "'m representation \<Rightarrow> wyckoff_key \<Rightarrow> nat" where
  "key_count r k = (case map_of (wyckoff_positions r) k of None \<Rightarrow> 0 | Some n \<Rightarrow> n)"

definition max_count :: "wyckoff_key \<Rightarrow> 'm representation list \<Rightarrow> nat" where
  "max_count k candidates = fold max (map (\<lambda>r. key_count r k) candidates) 0"

fun narrowing :: "wyckoff_key list \<Rightarrow> 'm representation list \<Rightarrow> 'm representation list" where
  "narrowing [] candidates = candidates"
| "narrowing (k # ks) candidates =
     (if length candidates = 1 then candidates
      else narrowing ks (filter (\<lambda>r. key_count r k = max_count k candidates) candidates))"

definition ordered_keys :: "letter list \<Rightarrow> nat list \<Rightarrow> wyckoff_key list" where
  "ordered_keys letters numbers = concat (map (\<lambda>w. map (\<lambda>z. (w, z)) numbers) letters)"

section \<open>Insertion into the tiling map\<close>

text \<open>
  C9.  \<open>__setitem__\<close> raises exactly when the key cannot be turned into a tuple, when
  the tuple does not have three components, or when the key is already present; a call
  that raises leaves the dictionary as it was, so the stored unit is never overwritten;
  a fresh key of three components is always stored, and nothing else changes.
\<close>

theorem setitem_rejects_and_accepts:
  "(fst (setitem key val d) \<noteq> None \<longleftrightarrow>
      (key = NonIterable \<or> (\<exists>k. key = Sequence k \<and> (length k \<noteq> 3 \<or> k \<in> dict_keys d))))
   \<and> (fst (setitem key val d) \<noteq> None \<longrightarrow> snd (setitem key val d) = d)
   \<and> (\<forall>k. key = Sequence k \<and> length k = 3 \<and> k \<notin> dict_keys d \<longrightarrow>
          setitem key val d = (None, d @ [(k, val)]))
   \<and> (\<forall>k' \<in> dict_keys d. map_of (snd (setitem key val d)) k' = map_of d k')"
proof (cases key)
  case NonIterable
  then show ?thesis by (simp add: setitem_def)
next
  case (Sequence k)
  have "map_of (d @ [(k, val)]) k' = map_of d k'" if "k' \<in> dict_keys d" for k'
  proof -
    from that have "k' \<in> dom (map_of d)"
      by (simp add: dict_keys_def dom_map_of_conv_image_fst)
    then show ?thesis
      by (simp add: map_add_dom_app_simps)
  qed
  with Sequence show ?thesis
    by (simp add: setitem_def)
qed

theorem setitem_rejects_and_accepts_witness:
  "snd (setitem (Sequence [0, 0, 1]) (8::nat) [([0, 0, 1], 7)]) = [([0, 0, 1], 7)]
   \<and> setitem (Sequence [0, 1, 0]) (8::nat) [([0, 0, 1], 7)]
       = (None, [([0, 0, 1], 7), ([0, 1, 0], 8)])
   \<and> fst (setitem (Sequence [0, 1]) (8::nat) []) \<noteq> None
   \<and> fst (setitem NonIterable (8::nat) []) \<noteq> None"
  using setitem_rejects_and_accepts [of "Sequence [0, 0, 1]" "8::nat" "[([0, 0, 1], 7)]"]
    setitem_rejects_and_accepts [of "Sequence [0, 1, 0]" "8::nat" "[([0, 0, 1], 7)]"]
    setitem_rejects_and_accepts [of "Sequence [0, 1]" "8::nat" "[]"]
    setitem_rejects_and_accepts [of NonIterable "8::nat" "[]"]
  by (simp add: dict_keys_def)

section \<open>The chemical distance\<close>

lemma score_loop_acc: "score_loop xs r a = a + score_loop xs r 0"
proof (induction xs arbitrary: a)
  case Nil show ?case by simp
next
  case (Cons x xs)
  obtain k v where x: "x = (k, v)" by (cases x)
  show ?case
  proof (cases "map_of r k")
    case None with Cons[of a] show ?thesis by (simp add: x)
  next
    case (Some c)
    with Cons[of "a + min c v"] Cons[of "min c v"] show ?thesis by (simp add: x)
  qed
qed

lemma score_loop_sum_list:
  "score_loop xs r 0 = sum_list (map (\<lambda>(k, v). min (species_count r k) v) xs)"
proof (induction xs)
  case Nil show ?case by simp
next
  case (Cons a xs)
  obtain k v where a: "a = (k, v)" by (cases a)
  show ?case
  proof (cases "map_of r k")
    case None with Cons show ?thesis by (simp add: a species_count_def)
  next
    case (Some c)
    with Cons score_loop_acc[of xs r "min c v"] show ?thesis
      by (simp add: a species_count_def)
  qed
qed

lemma species_count_distinct:
  "distinct (map fst xs) \<Longrightarrow> (k, v) \<in> set xs \<Longrightarrow> species_count xs k = v"
  by (simp add: species_count_def)

lemma species_count_absent:
  "z \<notin> dict_keys xs \<Longrightarrow> species_count xs z = 0"
  by (simp add: species_count_def dict_keys_def map_of_eq_None_iff[THEN iffD2])

lemma sum_list_items_as_keys:
  assumes "distinct (map fst xs)"
  shows "sum_list (map (\<lambda>(k, v). f k v) xs) = (\<Sum>z \<in> dict_keys xs. f z (species_count xs z))"
proof -
  have "sum_list (map (\<lambda>(k, v). f k v) xs) = sum_list (map (\<lambda>k. f k (species_count xs k)) (map fst xs))"
    unfolding map_map
    by (rule arg_cong[where f=sum_list], rule map_cong[OF refl])
       (use assms in \<open>auto simp: species_count_distinct\<close>)
  also have "\<dots> = (\<Sum>z \<in> set (map fst xs). f z (species_count xs z))"
    using assms by (rule sum_list_distinct_conv_sum_set)
  finally show ?thesis by (simp add: dict_keys_def)
qed

lemma score_loop_formula:
  assumes "distinct (map fst ideal_env)"
  shows "score_loop ideal_env real_env 0 =
    (\<Sum>z \<in> dict_keys ideal_env \<union> dict_keys real_env.
        min (species_count ideal_env z) (species_count real_env z))"
proof -
  have "score_loop ideal_env real_env 0 =
      (\<Sum>z \<in> dict_keys ideal_env. min (species_count real_env z) (species_count ideal_env z))"
    using sum_list_items_as_keys[OF assms, of "\<lambda>k v. min (species_count real_env k) v"]
    by (simp add: score_loop_sum_list)
  also have "\<dots> = (\<Sum>z \<in> dict_keys ideal_env \<union> dict_keys real_env.
        min (species_count ideal_env z) (species_count real_env z))"
    by (rule sum.mono_neutral_cong_left)
       (auto simp: dict_keys_def species_count_absent min.commute)
  finally show ?thesis .
qed

lemma max_score_formula:
  assumes "distinct (map fst ideal_env)"
  shows "sum_list (map snd ideal_env) = (\<Sum>z \<in> dict_keys ideal_env. species_count ideal_env z)"
  using sum_list_items_as_keys[OF assms, of "\<lambda>k v. v"]
  by (simp add: case_prod_unfold)

lemma score_le_max_score: "score_loop xs r 0 \<le> sum_list (map snd xs)"
  unfolding score_loop_sum_list
  by (rule sum_list_mono) auto

lemma score_full:
  assumes "\<forall>(k, v) \<in> set xs. v \<le> species_count r k"
  shows "score_loop xs r 0 = sum_list (map snd xs)"
  unfolding score_loop_sum_list
  by (rule arg_cong[where f=sum_list], rule map_cong[OF refl]) (use assms in auto)

lemma score_none:
  assumes "\<forall>(k, v) \<in> set xs. species_count r k = 0"
  shows "score_loop xs r 0 = 0"
  unfolding score_loop_sum_list using assms
  by (induction xs) auto

lemma ratio_one: "0 < (m::nat) \<Longrightarrow> s = m \<Longrightarrow> (of_nat s :: rat) / of_nat m = 1"
  by simp

lemma ratio_range:
  "0 < (m::nat) \<Longrightarrow> s \<le> m \<Longrightarrow> 0 \<le> (of_nat s :: rat) / of_nat m \<and> (of_nat s :: rat) / of_nat m \<le> 1"
  by (simp add: divide_le_eq)

text \<open>
  C8, as amended.  For an ideal environment (a dictionary, one entry per species) with
  at least one neighbour, \<open>get_chemical_distance\<close> returns the sum over species of the
  smaller of the two counts divided by the sum of the ideal counts; the value lies
  between 0 and 1, is 1 when the real count reaches the ideal count for every ideal
  species, and is 0 when the real environment lists no ideal species.
\<close>

theorem chemical_distance_formula_range:
  assumes "distinct (map fst ideal_env)" and "0 < sum_list (map snd ideal_env)"
  shows "get_chemical_distance ideal_env real_env
           = Inr (chemical_distance_formula ideal_env real_env)
    \<and> 0 \<le> chemical_distance_formula ideal_env real_env
    \<and> chemical_distance_formula ideal_env real_env \<le> 1
    \<and> ((\<forall>z \<in> dict_keys ideal_env. species_count ideal_env z \<le> species_count real_env z)
         \<longrightarrow> chemical_distance_formula ideal_env real_env = 1)
    \<and> ((\<forall>z \<in> dict_keys ideal_env. z \<notin> dict_keys real_env)
         \<longrightarrow> chemical_distance_formula ideal_env real_env = 0)"
proof -
  let ?m = "sum_list (map snd ideal_env)"
  let ?s = "score_loop ideal_env real_env 0"
  have f: "chemical_distance_formula ideal_env real_env = of_nat ?s / of_nat ?m"
    by (simp add: chemical_distance_formula_def score_loop_formula[OF assms(1)]
        max_score_formula[OF assms(1)])
  have code: "get_chemical_distance ideal_env real_env = Inr (of_nat ?s / of_nat ?m)"
  proof -
    from assms(2) have "?m \<noteq> 0" by linarith
    then show ?thesis unfolding get_chemical_distance_def Let_def by (simp only: if_False)
  qed
  have le: "?s \<le> ?m" by (rule score_le_max_score)
  have range: "(0::rat) \<le> of_nat ?s / of_nat ?m" "(of_nat ?s :: rat) / of_nat ?m \<le> 1"
    using ratio_range[OF assms(2) le] by blast+
  have one: "(of_nat ?s :: rat) / of_nat ?m = 1"
    if "\<forall>z \<in> dict_keys ideal_env. species_count ideal_env z \<le> species_count real_env z"
  proof -
    have "\<forall>(k, v) \<in> set ideal_env. v \<le> species_count real_env k"
      using that assms(1) by (force simp: dict_keys_def species_count_distinct)
    then have "?s = ?m" by (rule score_full)
    with assms(2) show ?thesis by (rule ratio_one)
  qed
  have zero: "(of_nat ?s :: rat) / of_nat ?m = 0"
    if "\<forall>z \<in> dict_keys ideal_env. z \<notin> dict_keys real_env"
  proof -
    have "\<forall>(k, v) \<in> set ideal_env. species_count real_env k = 0"
      using that by (force simp: dict_keys_def intro: species_count_absent[unfolded dict_keys_def])
    then have "?s = 0" by (rule score_none)
    then show ?thesis by simp
  qed
  show ?thesis
    unfolding f using code range one zero by blast
qed

theorem chemical_distance_formula_range_witness:
  "get_chemical_distance [(14, 4), (8, 2)] [(14, 3), (1, 5)] = Inr (1 / 2)
   \<and> chemical_distance_formula [(14, 4), (8, 2)] [(14, 3), (1, 5)] = 1 / 2
   \<and> chemical_distance_formula [(14, 4), (8, 2)] [(8, 2), (14, 6)] = 1
   \<and> chemical_distance_formula [(14, 4), (8, 2)] [(1, 5)] = 0"
  using chemical_distance_formula_range [of "[(14, 4), (8, 2)]" "[(14, 3), (1, 5)]"]
   chemical_distance_formula_range [of "[(14, 4), (8, 2)]" "[(8, 2), (14, 6)]"]
   chemical_distance_formula_range [of "[(14, 4), (8, 2)]" "[(1, 5)]"]
  by (simp add: get_chemical_distance_def dict_keys_def species_count_def)

text \<open>
  C8 as stated fails for an ideal environment without neighbours: the division is by
  zero, the Python yields \<open>nan\<close>, and no number in the unit interval is returned
  although the real environment matches the ideal one in every species.
\<close>

theorem chemical_distance_counterexample:
  "\<not> (\<exists>d. get_chemical_distance [(14, 0)] [(14, 0)] = Inr d \<and> 0 \<le> d \<and> d \<le> 1)"
  by (simp add: get_chemical_distance_def)



section \<open>Errors of the symmetry dataset\<close>

text \<open>
  C7.  With no dataset cached, \<open>get_symmetry_dataset\<close> raises \<open>CellNormalizationError\<close>
  exactly when the oracle crashes inside the fault boundary or returns \<open>None\<close>; it
  raises nothing else, and an error leaves the analyzer as it was; in every other case
  the dataset the oracle returned is returned and stored.  A stored dataset is returned
  as it is, whatever the oracle would do.
\<close>

theorem get_symmetry_dataset_outcomes:
  "(symmetry_dataset s = None \<longrightarrow>
      (fst (get_symmetry_dataset run s) = Inl CellNormalizationError
         \<longleftrightarrow> run = Crashes \<or> run = Returns None)
    \<and> (\<forall>e. fst (get_symmetry_dataset run s) = Inl e \<longrightarrow>
           e = CellNormalizationError \<and> snd (get_symmetry_dataset run s) = s)
    \<and> (\<forall>d. run = Returns (Some d) \<longrightarrow>
           get_symmetry_dataset run s = (Inr d, s\<lparr>symmetry_dataset := Some d\<rparr>)))
   \<and> (\<forall>d. symmetry_dataset s = Some d \<longrightarrow> get_symmetry_dataset run s = (Inr d, s))"
proof (cases run)
  case Crashes
  then show ?thesis
    by (simp add: get_symmetry_dataset_def segfault_protect_def split: option.splits)
next
  case (Returns r)
  then show ?thesis
    by (cases r) (simp_all add: get_symmetry_dataset_def segfault_protect_def split: option.splits)
qed

theorem get_symmetry_dataset_outcomes_witness:
  "fst (get_symmetry_dataset (Crashes :: nat oracle_run) \<lparr>symmetry_dataset = None\<rparr>)
     = Inl CellNormalizationError
   \<and> fst (get_symmetry_dataset (Returns None :: nat oracle_run) \<lparr>symmetry_dataset = None\<rparr>)
     = Inl CellNormalizationError
   \<and> get_symmetry_dataset (Returns (Some (227::nat))) \<lparr>symmetry_dataset = None\<rparr>
     = (Inr 227, \<lparr>symmetry_dataset = Some 227\<rparr>)
   \<and> get_symmetry_dataset Crashes \<lparr>symmetry_dataset = Some (227::nat)\<rparr>
     = (Inr 227, \<lparr>symmetry_dataset = Some 227\<rparr>)"
  using get_symmetry_dataset_outcomes [of "\<lparr>symmetry_dataset = None\<rparr>" "Crashes :: nat oracle_run"]
    get_symmetry_dataset_outcomes [of "\<lparr>symmetry_dataset = None\<rparr>" "Returns None :: nat oracle_run"]
    get_symmetry_dataset_outcomes [of "\<lparr>symmetry_dataset = None\<rparr>" "Returns (Some (227::nat))"]
    get_symmetry_dataset_outcomes [of "\<lparr>symmetry_dataset = Some (227::nat)\<rparr>" Crashes]
  by simp

section \<open>Selection of the ground state\<close>

subsection \<open>Counting dictionaries\<close>

lemma count_key_keys: "fst ` set (count_key k d) = insert k (fst ` set d)"
  by (induction k d rule: count_key.induct) auto

lemma count_key_distinct: "distinct (map fst d) \<Longrightarrow> distinct (map fst (count_key k d))"
proof (induction k d rule: count_key.induct)
  case (1 k) show ?case by simp
next
  case (2 k k' n d)
  then show ?case using count_key_keys[of k d] by (auto simp: image_iff)
qed

lemma count_key_positive:
  "\<forall>(k', n) \<in> set d. 0 < n \<Longrightarrow> \<forall>(k', n) \<in> set (count_key k d). 0 < n"
  by (induction k d rule: count_key.induct) auto

lemma count_atoms_distinct:
  "distinct (map fst d) \<Longrightarrow> distinct (map fst (count_atoms perm atoms d))"
  by (induction perm atoms d rule: count_atoms.induct)
     (auto simp: count_key_distinct split: option.splits)

lemma count_atoms_positive:
  "\<forall>(k', n) \<in> set d. 0 < n \<Longrightarrow> \<forall>(k', n) \<in> set (count_atoms perm atoms d). 0 < n"
proof (induction perm atoms d rule: count_atoms.induct)
  case (1 perm d) then show ?case by simp
next
  case (2 perm old_w z atoms d)
  show ?case
  proof (cases "map_of perm old_w")
    case None with 2 show ?thesis by simp
  next
    case (Some new_w)
    with 2(2)[OF Some count_key_positive[OF 2(3)]] show ?thesis by simp
  qed
qed

lemma count_atoms_keys:
  "fst ` set (count_atoms perm atoms d)
     \<subseteq> fst ` set d \<union> (snd ` set perm) \<times> (snd ` set atoms)"
proof (induction perm atoms d rule: count_atoms.induct)
  case (1 perm d) show ?case by simp
next
  case (2 perm old_w z atoms d)
  show ?case
  proof (cases "map_of perm old_w")
    case None with 2(1) show ?thesis by auto
  next
    case (Some new_w)
    then have "new_w \<in> snd ` set perm" by (force dest: map_of_SomeD)
    with 2(2)[OF Some] Some show ?thesis
      by (auto simp: count_key_keys)
  qed
qed

lemma dict_length_card: "distinct (map fst d) \<Longrightarrow> length d = card (dom (map_of d))"
  by (metis distinct_card dom_map_of_conv_image_fst length_map set_map)

subsection \<open>One narrowing step\<close>

lemma n_atoms_max_fold:
  "fold (\<lambda>r m. case map_of (wyckoff_positions r) k of
                  None \<Rightarrow> m | Some i_n \<Rightarrow> if i_n > m then i_n else m) rs a
   = fold max (map (\<lambda>r. key_count r k) rs) a"
  by (induction rs arbitrary: a) (auto simp: key_count_def max_def split: option.splits)

lemma n_atoms_max_eq: "n_atoms_max k rs = max_count k rs"
  by (simp add: n_atoms_max_def max_count_def n_atoms_max_fold)

lemma fold_max_ge: "(a::nat) \<le> fold max xs a"
proof (induction xs arbitrary: a)
  case Nil show ?case by simp
next
  case (Cons x xs)
  have "a \<le> max x a" by simp
  also have "\<dots> \<le> fold max xs (max x a)" by (rule Cons)
  finally show ?case by simp
qed

lemma fold_max_upper: "x \<in> set xs \<Longrightarrow> (x::nat) \<le> fold max xs a"
proof (induction xs arbitrary: a)
  case Nil then show ?case by simp
next
  case (Cons y xs)
  show ?case
  proof (cases "x = y")
    case True
    have "x \<le> max y a" using True by simp
    also have "\<dots> \<le> fold max xs (max y a)" by (rule fold_max_ge)
    finally show ?thesis by simp
  next
    case False
    with Cons show ?thesis by simp
  qed
qed

lemma fold_max_attained: "fold max xs (a::nat) = a \<or> fold max xs a \<in> set xs"
proof (induction xs arbitrary: a)
  case Nil show ?case by simp
next
  case (Cons y xs)
  from Cons[of "max y a"] show ?case by (auto simp: max_def split: if_splits)
qed

lemma max_count_upper: "r \<in> set rs \<Longrightarrow> key_count r k \<le> max_count k rs"
  unfolding max_count_def by (rule fold_max_upper) simp

lemma max_count_attained:
  "max_count k rs = 0 \<or> (\<exists>r \<in> set rs. key_count r k = max_count k rs)"
  using fold_max_attained[of "map (\<lambda>r. key_count r k) rs" 0]
  unfolding max_count_def by auto

lemma narrow_step_filter:
  "narrow_step k rs = filter (\<lambda>r. key_count r k = max_count k rs) rs"
proof (cases "max_count k rs = 0")
  case True
  then have "\<forall>r \<in> set rs. key_count r k = max_count k rs"
    using max_count_upper[of _ rs k] by fastforce
  then have "filter (\<lambda>r. key_count r k = max_count k rs) rs = rs"
    by (simp add: filter_id_conv)
  with True show ?thesis by (simp add: narrow_step_def n_atoms_max_eq)
next
  case False
  then have eq: "(\<lambda>r. map_of (wyckoff_positions r) k = Some (max_count k rs))
             = (\<lambda>r. key_count r k = max_count k rs)"
    by (auto simp: key_count_def fun_eq_iff split: option.splits)
  from False show ?thesis
    unfolding narrow_step_def n_atoms_max_eq Let_def eq by simp
qed

lemma narrow_step_nonempty: "rs \<noteq> [] \<Longrightarrow> narrow_step k rs \<noteq> []"
proof -
  assume ne: "rs \<noteq> []"
  show ?thesis
  proof (cases "max_count k rs = 0")
    case True
    then show ?thesis using ne by (simp add: narrow_step_def n_atoms_max_eq)
  next
    case False
    with max_count_attained[of k rs] obtain r where "r \<in> set rs" "key_count r k = max_count k rs"
      by auto
    then show ?thesis by (auto simp: narrow_step_filter filter_empty_conv)
  qed
qed

lemma narrow_step_single: "narrow_step k [r] = [r]"
  by (simp add: narrow_step_filter max_count_def)

lemma narrow_step_subset: "set (narrow_step k rs) \<subseteq> set rs"
  by (simp add: narrow_step_filter)

lemma narrow_step_agree:
  "r \<in> set (narrow_step k rs) \<Longrightarrow> r' \<in> set (narrow_step k rs) \<Longrightarrow> key_count r k = key_count r' k"
  by (simp add: narrow_step_filter)

subsection \<open>The loops against the narrowing of the specification\<close>

lemma narrowing_step: 
  "narrowing (k # ks) rs = (if length rs = 1 then rs else narrowing ks (narrow_step k rs))"
  by (simp add: narrow_step_filter)

lemma narrowing_single: "length rs = 1 \<Longrightarrow> narrowing ks rs = rs"
  by (cases ks) simp_all

lemma narrowing_append: "narrowing (ks1 @ ks2) rs = narrowing ks2 (narrowing ks1 rs)"
  by (induction ks1 arbitrary: rs) (simp_all add: narrowing_single)

lemma narrowing_nonempty: "rs \<noteq> [] \<Longrightarrow> narrowing ks rs \<noteq> []"
proof (induction ks arbitrary: rs)
  case Nil then show ?case by simp
next
  case (Cons k ks)
  from Cons(1)[OF narrow_step_nonempty[OF Cons(2)]] Cons(2) show ?case
    unfolding narrowing_step by simp
qed

lemma narrowing_subset: "set (narrowing ks rs) \<subseteq> set rs"
proof (induction ks arbitrary: rs)
  case Nil show ?case by simp
next
  case (Cons k ks)
  from Cons[of "narrow_step k rs"] narrow_step_subset[of k rs] show ?case
    unfolding narrowing_step by auto
qed

lemma narrowing_agree:
  "k \<in> set ks \<Longrightarrow> r \<in> set (narrowing ks rs) \<Longrightarrow> r' \<in> set (narrowing ks rs)
     \<Longrightarrow> key_count r k = key_count r' k"
proof (induction ks arbitrary: rs)
  case Nil then show ?case by simp
next
  case (Cons k' ks)
  show ?case
  proof (cases "length rs = 1")
    case True
    then obtain x where "rs = [x]" by (cases rs) auto
    with Cons(3,4) True show ?thesis by simp
  next
    case False
    with Cons(3,4) have mem: "r \<in> set (narrowing ks (narrow_step k' rs))"
        "r' \<in> set (narrowing ks (narrow_step k' rs))"
      unfolding narrowing_step by simp_all
    show ?thesis
    proof (cases "k = k'")
      case True
      from mem narrowing_subset[of ks "narrow_step k' rs"]
      have "r \<in> set (narrow_step k' rs)" "r' \<in> set (narrow_step k' rs)" by auto
      then show ?thesis unfolding True by (rule narrow_step_agree)
    next
      case False
      with Cons(2) have "k \<in> set ks" by simp
      from Cons(1)[OF this mem] show ?thesis .
    qed
  qed
qed

lemma species_loop_narrowing:
  "found = (length rs = 1) \<Longrightarrow>
   species_loop w zs (rs, found)
     = (narrowing (map (\<lambda>z. (w, z)) zs) rs, length (narrowing (map (\<lambda>z. (w, z)) zs) rs) = 1)"
proof (induction zs arbitrary: rs found)
  case Nil then show ?case by simp
next
  case (Cons z zs)
  show ?case
  proof (cases "length rs = 1")
    case True
    then obtain x where x: "rs = [x]" by (cases rs) auto
    from Cons(1)[of True "[x]"] Cons(2) show ?thesis
      by (simp add: x narrow_step_single narrowing_single del: narrowing.simps)
  next
    case False
    with Cons(2) have nf: "found = False" by simp
    from Cons(1)[of "length (narrow_step (w, z) rs) = 1" "narrow_step (w, z) rs"] False
    show ?thesis
      by (simp add: nf narrowing_step Let_def del: narrowing.simps)
  qed
qed

lemma letter_loop_narrowing:
  "found = (length rs = 1) \<Longrightarrow>
   letter_loop ws zs (rs, found)
     = (narrowing (ordered_keys ws zs) rs, length (narrowing (ordered_keys ws zs) rs) = 1)"
proof (induction ws arbitrary: rs found)
  case Nil then show ?case by (simp add: ordered_keys_def)
next
  case (Cons w ws)
  have ok: "ordered_keys (w # ws) zs = map (\<lambda>z. (w, z)) zs @ ordered_keys ws zs"
    by (simp add: ordered_keys_def)
  show ?case
  proof (cases "length rs = 1")
    case True
    with Cons(2) show ?thesis by (simp add: narrowing_single)
  next
    case False
    with Cons(2) have nf: "found = False" by simp
    let ?rs = "narrowing (map (\<lambda>z. (w, z)) zs) rs"
    have "letter_loop (w # ws) zs (rs, found) = letter_loop ws zs (?rs, length ?rs = 1)"
      using species_loop_narrowing[of False rs w zs] False by (simp add: nf)
    also have "\<dots> = (narrowing (ordered_keys ws zs) ?rs, length (narrowing (ordered_keys ws zs) ?rs) = 1)"
      by (rule Cons(1)) simp
    finally show ?thesis by (simp add: ok narrowing_append)
  qed
qed

subsection \<open>The final comparison\<close>

lemma compare_keys_equal:
  "\<forall>key \<in> set keys. map_of new_wyckoffs key \<noteq> None \<Longrightarrow>
   map_of i_wyckoffs = map_of new_wyckoffs \<Longrightarrow>
   compare_keys keys new_wyckoffs i_wyckoffs = None"
proof (induction keys)
  case Nil show ?case by simp
next
  case (Cons key keys)
  from Cons(2) obtain n where n: "map_of new_wyckoffs key = Some n" by auto
  with Cons(3) have i: "map_of i_wyckoffs key = Some n" by simp
  from Cons(1)[OF _ Cons(3)] Cons(2)
  have "compare_keys keys new_wyckoffs i_wyckoffs = None" by simp
  with n i show ?case by simp
qed

lemma compare_representations_equal:
  assumes "distinct (map fst new_wyckoffs)"
    and "\<forall>r \<in> set rs. distinct (map fst (wyckoff_positions r))
            \<and> map_of (wyckoff_positions r) = map_of new_wyckoffs"
  shows "compare_representations new_wyckoffs rs = None"
  using assms(2)
proof (induction rs)
  case Nil show ?case by simp
next
  case (Cons r rs)
  then have d: "distinct (map fst (wyckoff_positions r))"
    and m: "map_of (wyckoff_positions r) = map_of new_wyckoffs" by simp_all
  have len: "length (wyckoff_positions r) = length new_wyckoffs"
    unfolding dict_length_card[OF d] dict_length_card[OF assms(1)] m by (rule refl)
  have "\<forall>key \<in> set (map fst new_wyckoffs). map_of new_wyckoffs key \<noteq> None"
    by (simp add: map_of_eq_None_iff)
  then have "compare_keys (map fst new_wyckoffs) new_wyckoffs (wyckoff_positions r) = None"
    using m by (rule compare_keys_equal)
  moreover from Cons have "compare_representations new_wyckoffs rs = None" by simp
  ultimately show ?case using len by simp
qed

subsection \<open>The candidates\<close>

lemma make_representation_distinct:
  "distinct (map fst (wyckoff_positions (make_representation old nums t)))"
  by (simp add: make_representation_def count_atoms_distinct)

lemma make_representation_positive:
  "(k, n) \<in> set (wyckoff_positions (make_representation old nums t)) \<Longrightarrow> 0 < n"
  using count_atoms_positive[of "[]" "permutations t" "zip old nums"]
  by (auto simp: make_representation_def)

lemma make_representation_keys:
  "fst ` set (wyckoff_positions (make_representation old nums t))
     \<subseteq> (snd ` set (permutations t)) \<times> set nums"
proof -
  have z: "snd ` set (zip old nums) \<subseteq> set nums"
  proof
    fix y assume "y \<in> snd ` set (zip old nums)"
    then obtain p where "y = snd p" "p \<in> set (zip old nums)" by (rule imageE)
    then have "(fst p, y) \<in> set (zip old nums)" by simp
    then show "y \<in> set nums" by (rule set_zip_rightD)
  qed
  have k: "fst ` set (count_atoms (permutations t) (zip old nums) [])
      \<subseteq> (snd ` set (permutations t)) \<times> (snd ` set (zip old nums))"
    using count_atoms_keys[of "permutations t" "zip old nums" "[]"]
    by (simp only: list.set image_empty Un_empty_left)
  have m: "(snd ` set (permutations t)) \<times> (snd ` set (zip old nums))
      \<subseteq> (snd ` set (permutations t)) \<times> set nums"
    by (rule Sigma_mono) (rule subset_refl, rule z)
  have wp: "wyckoff_positions (make_representation old nums t)
      = count_atoms (permutations t) (zip old nums) []"
    by (simp add: make_representation_def)
  show ?thesis unfolding wp by (rule order_trans[OF k m])
qed

lemma set_ordered_keys: "set (ordered_keys ws zs) = set ws \<times> set zs"
  by (auto simp: ordered_keys_def)

lemma candidate_keys:
  assumes "t \<in> set transform_list"
  shows "fst ` set (wyckoff_positions (make_representation old nums t))
     \<subseteq> set (ordered_keys (all_wyckoff_letters transform_list) (all_atomic_numbers nums))"
proof -
  have "snd ` set (permutations t) \<subseteq> set (all_wyckoff_letters transform_list)"
    using assms by (auto simp: all_wyckoff_letters_def)
  moreover have "set (all_atomic_numbers nums) = set nums"
    by (simp add: all_atomic_numbers_def)
  ultimately have "(snd ` set (permutations t)) \<times> set nums
      \<subseteq> set (ordered_keys (all_wyckoff_letters transform_list) (all_atomic_numbers nums))"
    unfolding set_ordered_keys by blast
  with make_representation_keys[of old nums t] show ?thesis
    by (rule order_trans)
qed

lemma key_count_absent: "k \<notin> fst ` set (wyckoff_positions r) \<Longrightarrow> key_count r k = 0"
  by (simp add: key_count_def map_of_eq_None_iff[THEN iffD2])

lemma key_count_maps:
  fixes r r' :: "'m representation"
  assumes "\<forall>k. key_count r k = key_count r' k"
    and "\<forall>(k, n) \<in> set (wyckoff_positions r). 0 < n"
    and "\<forall>(k, n) \<in> set (wyckoff_positions r'). 0 < n"
  shows "map_of (wyckoff_positions r) = map_of (wyckoff_positions r')"
proof
  fix k
  have pos: "0 < n" if "map_of (wyckoff_positions x) k = Some n" "x = r \<or> x = r'" for x :: "'m representation" and n
    using that assms(2,3) by (auto dest!: map_of_SomeD)
  from assms(1) have "key_count r k = key_count r' k" by (rule spec)
  with pos[of r] pos[of r'] show "map_of (wyckoff_positions r) k = map_of (wyckoff_positions r') k"
    by (auto simp: key_count_def split: option.splits)
qed

end
